theory Spec2Isabelle
  imports Main
begin

section \<open>The traffic signal controller of script.js\<close>

text \<open>
  The controller of \<^verbatim>\<open>src/script.js\<close> is a single mutable object \<^verbatim>\<open>state\<close> that
  is changed by the animation-frame callback \<^verbatim>\<open>mainLoop\<close>, by the socket handlers, by the
  two window functions \<^verbatim>\<open>emergencyOverride\<close> and \<^verbatim>\<open>resetSystem\<close>, and by the timers they
  set. Each of them is a function from the state to the new state here. Clock readings
  (\<^verbatim>\<open>Date.now()\<close>) are arguments, in milliseconds. Logging and the rendering of sliders,
  counters and countdowns are left out, except where they decide what happens to the
  state: \<^verbatim>\<open>setLight\<close> writes \<^verbatim>\<open>state.currentLights\<close> only when the light's DOM nodes
  exist, and a \<^verbatim>\<open>toUpperCase()\<close> on an undefined direction throws.
\<close>

subsection \<open>Data\<close>

datatype direction = North | South | East | West

datatype phase = Initializing | Green | Yellow | Red

datatype color = LRed | LYellow | LGreen

text \<open>
  The fields of \<^verbatim>\<open>state\<close>, in the order of the source. The last field is not a field of
  the source object: it records the \<^verbatim>\<open>socket.emit('request_snapshot', {direction})\<close>
  calls made so far, oldest first.
\<close>

record state =
  realCarCounts :: "direction \<Rightarrow> int"
  currentLights :: "direction \<Rightarrow> color"
  phase :: phase
  currentCycleIndex :: int
  cycleStartTime :: int
  phaseDuration :: int
  cycleCount :: int
  startTime :: int
  emergencyMode :: bool
  emergencyDirection :: "direction option"
  totalCyclesCompleted :: int
  snapshotTaken :: bool
  nextDirectionCount :: int
  nextDirectionGreenTime :: int
  waitingForSnapshot :: bool
  isFirstCycle :: bool
  emitted :: "direction list"

text \<open>Which traffic lights have DOM nodes (\<^verbatim>\<open>elements.lights[d]\<close> non-empty).\<close>

type_synonym dom = "direction \<Rightarrow> bool"

subsection \<open>Configuration\<close>

definition YELLOW_TIME :: int where "YELLOW_TIME = 3000"
definition ALL_RED_TIME :: int where "ALL_RED_TIME = 2000"
definition CYCLE_ORDER :: "direction list" where "CYCLE_ORDER = [North, East, South, West]"
definition SNAPSHOT_BEFORE_END :: int where "SNAPSHOT_BEFORE_END = 3000"
definition EMERGENCY_GREEN_TIME :: int where "EMERGENCY_GREEN_TIME = 30000"
definition DEFAULT_FIRST_GREEN :: int where "DEFAULT_FIRST_GREEN = 15000"

text \<open>
  The state object as the script creates it; both \<^verbatim>\<open>Date.now()\<close> readings of the
  literal are the argument.
\<close>

definition initial_state :: "int \<Rightarrow> state" where
  "initial_state t0 =
     \<lparr> realCarCounts = (\<lambda>_. 0),
       currentLights = (\<lambda>_. LRed),
       phase = Initializing,
       currentCycleIndex = - 1,
       cycleStartTime = t0,
       phaseDuration = 0,
       cycleCount = 0,
       startTime = t0,
       emergencyMode = False,
       emergencyDirection = None,
       totalCyclesCompleted = 0,
       snapshotTaken = False,
       nextDirectionCount = 0,
       nextDirectionGreenTime = 0,
       waitingForSnapshot = False,
       isFirstCycle = True,
       emitted = [] \<rparr>"

subsection \<open>Helper functions\<close>

text \<open>
  The remainder operator \<^verbatim>\<open>%\<close> of JavaScript takes the sign of the dividend. The script
  only divides by the length of the rotation.
\<close>

definition js_rem :: "int \<Rightarrow> int \<Rightarrow> int" where
  "js_rem a b = (if a < 0 then - ((- a) mod \<bar>b\<bar>) else a mod \<bar>b\<bar>)"

text \<open>\<^verbatim>\<open>CONFIG.CYCLE_ORDER[i]\<close>: \<open>None\<close> is \<^verbatim>\<open>undefined\<close>, read outside the array.\<close>

definition cycle_order_at :: "int \<Rightarrow> direction option" where
  "cycle_order_at i =
     (if 0 \<le> i \<and> i < int (length CYCLE_ORDER) then Some (CYCLE_ORDER ! nat i) else None)"

text \<open>
  \<^verbatim>\<open>setLight\<close> returns before the assignment to \<^verbatim>\<open>state.currentLights\<close> when the
  light has no DOM nodes.
\<close>

definition setLight :: "dom \<Rightarrow> direction \<Rightarrow> color \<Rightarrow> state \<Rightarrow> state" where
  "setLight dm d c s =
     (if dm d then s\<lparr>currentLights := (currentLights s)(d := c)\<rparr> else s)"

definition calculateSmartTime :: "int \<Rightarrow> int" where
  "calculateSmartTime carCount =
     (let time = 5000 + carCount * 3000;
          time = (if time < 10000 then 10000 else time);
          time = (if time > 60000 then 60000 else time)
      in time)"

text \<open>
  \<^verbatim>\<open>getActiveDirections\<close> returns an array of one element; the model returns that
  element, \<open>None\<close> when it is \<^verbatim>\<open>undefined\<close>.
\<close>

definition getActiveDirections :: "state \<Rightarrow> direction option" where
  "getActiveDirections s =
     (if emergencyMode s \<and> emergencyDirection s \<noteq> None then emergencyDirection s
      else if currentCycleIndex s = - 1 then Some North
      else cycle_order_at (currentCycleIndex s))"

definition getNextDirection :: "state \<Rightarrow> direction option" where
  "getNextDirection s =
     cycle_order_at (js_rem (currentCycleIndex s + 1) (int (length CYCLE_ORDER)))"

text \<open>
  \<^verbatim>\<open>requestSnapshotForNextDirection\<close>. The result \<open>None\<close> is the TypeError of
  \<^verbatim>\<open>nextDir.toUpperCase()\<close> on an undefined direction, thrown before the flag is set.
\<close>

definition requestSnapshotForNextDirection :: "state \<Rightarrow> state option" where
  "requestSnapshotForNextDirection s =
     (if waitingForSnapshot s then Some s
      else case getNextDirection s of
             None \<Rightarrow> None
           | Some nextDir \<Rightarrow>
               Some (s\<lparr>waitingForSnapshot := True, emitted := emitted s @ [nextDir]\<rparr>))"

text \<open>
  \<^verbatim>\<open>updateLights\<close>. \<^verbatim>\<open>setLight(undefined, c)\<close> finds no nodes and returns, and an
  undefined active direction is not among the four, so all four are inactive then.
\<close>

definition allDirs :: "direction list" where
  "allDirs = [North, South, East, West]"

definition setLights :: "dom \<Rightarrow> direction list \<Rightarrow> color \<Rightarrow> state \<Rightarrow> state" where
  "setLights dm ds c s = fold (\<lambda>d. setLight dm d c) ds s"

definition updateLights :: "dom \<Rightarrow> state \<Rightarrow> state" where
  "updateLights dm s =
     (let active = (case getActiveDirections s of None \<Rightarrow> [] | Some d \<Rightarrow> [d]);
          inactive = filter (\<lambda>d. d \<notin> set active) allDirs
      in if phase s = Green then setLights dm inactive LRed (setLights dm active LGreen s)
         else if phase s = Yellow then setLights dm inactive LRed (setLights dm active LYellow s)
         else if phase s = Red then setLights dm allDirs LRed s
         else s)"

subsection \<open>The cycle\<close>

text \<open>
  \<^verbatim>\<open>switchCycle\<close>; the argument \<open>now\<close> is its \<^verbatim>\<open>Date.now()\<close>. Every branch logs
  \<^verbatim>\<open>activeDir.toUpperCase()\<close>, which throws when the active direction is undefined:
  the result is \<open>None\<close> then. The local \<^verbatim>\<open>carCount\<close> is only logged.
\<close>

definition switchCycle :: "dom \<Rightarrow> int \<Rightarrow> state \<Rightarrow> state option" where
  "switchCycle dm now s =
     (let s = s\<lparr>currentCycleIndex :=
                  js_rem (currentCycleIndex s + 1) (int (length CYCLE_ORDER))\<rparr>;
          s = (if currentCycleIndex s = 0
               then s\<lparr>totalCyclesCompleted := totalCyclesCompleted s + 1\<rparr> else s);
          s = s\<lparr>phase := Green, snapshotTaken := False\<rparr>
      in case getActiveDirections s of
           None \<Rightarrow> None
         | Some activeDir \<Rightarrow>
             (let (greenTime, s) =
                    (if isFirstCycle s then (DEFAULT_FIRST_GREEN, s\<lparr>isFirstCycle := False\<rparr>)
                     else if emergencyMode s then (EMERGENCY_GREEN_TIME, s)
                     else (if nextDirectionGreenTime s \<noteq> 0 then nextDirectionGreenTime s
                           else calculateSmartTime (nextDirectionCount s), s));
                  s = s\<lparr>phaseDuration := greenTime, cycleStartTime := now\<rparr>
              in Some (updateLights dm s)))"

text \<open>
  \<^verbatim>\<open>mainLoop\<close>, one animation frame. \<open>now\<close> is the clock reading at its top and
  \<open>now_sw\<close> the one \<^verbatim>\<open>switchCycle\<close> takes when the frame calls it. The countdown and
  the uptime display that end the frame do not change the state.
\<close>

definition mainLoop :: "dom \<Rightarrow> int \<Rightarrow> int \<Rightarrow> state \<Rightarrow> state option" where
  "mainLoop dm now now_sw s0 =
     (let elapsed = now - cycleStartTime s0;
          activeDirs = getActiveDirections s0;
          r = (if phase s0 = Green \<and> \<not> snapshotTaken s0 \<and> \<not> emergencyMode s0
               then let timeUntilEnd = phaseDuration s0 - elapsed
                    in if timeUntilEnd \<le> SNAPSHOT_BEFORE_END \<and> timeUntilEnd > 0
                       then requestSnapshotForNextDirection (s0\<lparr>snapshotTaken := True\<rparr>)
                       else Some s0
               else Some s0)
      in case r of
           None \<Rightarrow> None
         | Some s \<Rightarrow>
             if phase s = Green \<and> elapsed \<ge> phaseDuration s then
               (let s = s\<lparr>phase := Yellow, phaseDuration := YELLOW_TIME, cycleStartTime := now\<rparr>
                in case activeDirs of None \<Rightarrow> None | Some _ \<Rightarrow> Some (updateLights dm s))
             else if phase s = Yellow \<and> elapsed \<ge> phaseDuration s then
               Some (updateLights dm
                 (s\<lparr>phase := Red, phaseDuration := ALL_RED_TIME, cycleStartTime := now\<rparr>))
             else if phase s = Red \<and> elapsed \<ge> phaseDuration s then
               switchCycle dm now_sw
                 (if emergencyMode s
                  then s\<lparr>emergencyMode := False, emergencyDirection := None\<rparr> else s)
             else Some s)"

subsection \<open>Socket handlers\<close>

text \<open>
  \<^verbatim>\<open>traffic_update\<close>: the four counts replace the table.
\<close>

definition traffic_update :: "int \<Rightarrow> int \<Rightarrow> int \<Rightarrow> int \<Rightarrow> state \<Rightarrow> state" where
  "traffic_update n so e w s =
     s\<lparr>realCarCounts := (\<lambda>d. case d of North \<Rightarrow> n | South \<Rightarrow> so | East \<Rightarrow> e | West \<Rightarrow> w)\<rparr>"

text \<open>
  \<^verbatim>\<open>snapshot_result\<close>. The optional \<^verbatim>\<open>green_time_ms\<close> is \<open>None\<close> when the message
  has none; \<^verbatim>\<open>data.green_time_ms || calculateSmartTime(count)\<close> takes the right-hand side
  also for a green time of 0.
\<close>

definition snapshot_result :: "direction \<Rightarrow> int \<Rightarrow> int option \<Rightarrow> state \<Rightarrow> state" where
  "snapshot_result direction count green_time_ms s =
     (let greenTimeMs = (case green_time_ms of
                           Some g \<Rightarrow> if g \<noteq> 0 then g else calculateSmartTime count
                         | None \<Rightarrow> calculateSmartTime count)
      in s\<lparr>realCarCounts := (realCarCounts s)(direction := count),
            nextDirectionCount := count,
            nextDirectionGreenTime := greenTimeMs,
            waitingForSnapshot := False\<rparr>)"

subsection \<open>Emergency and reset\<close>

definition parse_direction :: "string \<Rightarrow> direction option" where
  "parse_direction x =
     (if x = ''north'' then Some North
      else if x = ''south'' then Some South
      else if x = ''east'' then Some East
      else if x = ''west'' then Some West
      else None)"

text \<open>
  \<^verbatim>\<open>window.emergencyOverride\<close>: an argument that is not one of the four names is
  logged and nothing changes.
\<close>

definition emergencyOverride :: "dom \<Rightarrow> int \<Rightarrow> string \<Rightarrow> state \<Rightarrow> state" where
  "emergencyOverride dm now x s =
     (case parse_direction x of
        None \<Rightarrow> s
      | Some direction \<Rightarrow>
          updateLights dm
            (s\<lparr>emergencyMode := True,
               emergencyDirection := Some direction,
               phase := Yellow,
               phaseDuration := YELLOW_TIME,
               cycleStartTime := now\<rparr>))"

text \<open>
  \<^verbatim>\<open>window.resetSystem\<close>; the argument is the answer of the \<^verbatim>\<open>confirm\<close> dialog.
  The function sets a timer of 500 ms whose callback is \<open>resetRequestTimer\<close>, and that
  callback sets one of 1000 ms whose callback is \<open>resetSwitchTimer\<close>.
\<close>

definition resetSystem :: "bool \<Rightarrow> state \<Rightarrow> state" where
  "resetSystem confirmed s =
     (if confirmed
      then s\<lparr>emergencyMode := False,
             emergencyDirection := None,
             totalCyclesCompleted := 0,
             currentCycleIndex := - 1,
             cycleCount := 0,
             snapshotTaken := False,
             isFirstCycle := True\<rparr>
      else s)"

definition resetRequestTimer :: "state \<Rightarrow> state option" where
  "resetRequestTimer s = requestSnapshotForNextDirection s"

definition resetSwitchTimer :: "dom \<Rightarrow> int \<Rightarrow> state \<Rightarrow> state option" where
  "resetSwitchTimer dm now s = switchCycle dm now s"

subsection \<open>Initialization\<close>

text \<open>
  The two timers of \<^verbatim>\<open>initialize\<close>: the first sends the initial request for north
  without looking at the pending flag, the second seeds the next-direction values,
  switches to the first green and starts the main loop (whose frames are \<open>mainLoop\<close>).
\<close>

definition initRequestTimer :: "state \<Rightarrow> state" where
  "initRequestTimer s =
     s\<lparr>phase := Initializing, emitted := emitted s @ [North], waitingForSnapshot := True\<rparr>"

definition initStartTimer :: "dom \<Rightarrow> int \<Rightarrow> state \<Rightarrow> state option" where
  "initStartTimer dm now s =
     (let s = (if nextDirectionCount s = 0
               then s\<lparr>nextDirectionCount := realCarCounts s North\<rparr> else s);
          s = (if nextDirectionGreenTime s = 0
               then s\<lparr>nextDirectionGreenTime := DEFAULT_FIRST_GREEN\<rparr> else s)
      in switchCycle dm now s)"

subsection \<open>Events\<close>

text \<open>
  Everything that can happen to a running controller, as one step function. A run stops
  with \<open>None\<close> at the first step that throws.
\<close>

datatype event =
    Tick int int
  | TrafficUpdate int int int int
  | SnapshotResult direction int "int option"
  | EmergencyOverride int string
  | ResetSystem bool
  | ResetRequestTimer
  | ResetSwitchTimer int

fun step :: "dom \<Rightarrow> event \<Rightarrow> state \<Rightarrow> state option" where
  "step dm (Tick now now_sw) s = mainLoop dm now now_sw s"
| "step dm (TrafficUpdate n so e w) s = Some (traffic_update n so e w s)"
| "step dm (SnapshotResult d c g) s = Some (snapshot_result d c g s)"
| "step dm (EmergencyOverride now x) s = Some (emergencyOverride dm now x s)"
| "step dm (ResetSystem confirmed) s = Some (resetSystem confirmed s)"
| "step dm ResetRequestTimer s = resetRequestTimer s"
| "step dm (ResetSwitchTimer now) s = resetSwitchTimer dm now s"

fun run :: "dom \<Rightarrow> event list \<Rightarrow> state \<Rightarrow> state option" where
  "run dm [] s = Some s"
| "run dm (e # es) s = (case step dm e s of None \<Rightarrow> None | Some s' \<Rightarrow> run dm es s')"

subsection \<open>Scenarios\<close>

text \<open>
  A page on which every light has its DOM nodes, and the state in which the main loop
  starts when nothing else happens during initialization: the script creates the state
  at \<open>t0\<close>, the first timer sends the initial request, the second switches to the first
  green at \<open>t1\<close>.
\<close>

definition all_dom :: dom where
  "all_dom = (\<lambda>_. True)"

definition boot :: "dom \<Rightarrow> int \<Rightarrow> int \<Rightarrow> state option" where
  "boot dm t0 t1 = initStartTimer dm t1 (initRequestTimer (initial_state t0))"

text \<open>What an observer of the intersection sees of a state.\<close>

definition observe :: "state \<Rightarrow> phase \<times> direction option \<times> int \<times> bool \<times> direction option" where
  "observe s =
     (phase s, getActiveDirections s, phaseDuration s, emergencyMode s, emergencyDirection s)"

text \<open>
  North has been green for two seconds when an emergency vehicle is announced from the
  south; the frames that follow are the ends of the yellow and of the all-red phase.
\<close>

definition emergency_scenario :: "event list" where
  "emergency_scenario =
     [Tick 5000 5000, EmergencyOverride 6000 ''south'', Tick 9000 9000, Tick 11000 11000]"

text \<open>What a snapshot result leaves behind for north.\<close>

definition applied :: "state \<Rightarrow> int \<times> int \<times> int \<times> bool \<times> direction list" where
  "applied s =
     (nextDirectionCount s, nextDirectionGreenTime s, realCarCounts s North,
      waitingForSnapshot s, emitted s)"

text \<open>
  The rotation index is \<open>-1\<close> before the first green and after a reset, and a position
  of the rotation otherwise.
\<close>

definition index_ok :: "state \<Rightarrow> bool" where
  "index_ok s = (- 1 \<le> currentCycleIndex s \<and> currentCycleIndex s \<le> 3)"

text \<open>
  The all-red phase that follows north's first green, as the main loop reaches it when
  no snapshot is answered (lemma \<open>red_after_north_reached\<close>).
\<close>

definition red_after_north :: state where
  "red_after_north =
     (initial_state 0)
       \<lparr>currentLights := (\<lambda>_. LRed),
        phase := Red, currentCycleIndex := 0, cycleStartTime := 21000,
        phaseDuration := 2000, totalCyclesCompleted := 1,
        nextDirectionGreenTime := 15000, waitingForSnapshot := True,
        isFirstCycle := False, emitted := [North]\<rparr>"

text \<open>The phase, the pending flag and the requests sent.\<close>

definition pending_view :: "state \<Rightarrow> phase \<times> bool \<times> direction list" where
  "pending_view s = (phase s, waitingForSnapshot s, emitted s)"

text \<open>
  North's first green once the initial request has been answered with a count of 4
  (lemma \<open>north_green_reached\<close>).
\<close>

definition north_green :: state where
  "north_green =
     (initial_state 0)
       \<lparr>realCarCounts := (\<lambda>_. 0)(North := 4),
        currentLights := (\<lambda>_. LRed)(North := LGreen),
        phase := Green, currentCycleIndex := 0, cycleStartTime := 3000,
        phaseDuration := 15000, totalCyclesCompleted := 1,
        nextDirectionCount := 4, nextDirectionGreenTime := 17000,
        isFirstCycle := False, emitted := [North]\<rparr>"


text \<open>
  The events that advance the rotation: a frame that ends an all-red phase, and the
  switch timer of a reset. Both call \<open>switchCycle\<close>. \<open>advances\<close> counts them along a
  run.
\<close>

fun advancing :: "event \<Rightarrow> state \<Rightarrow> bool" where
  "advancing (Tick now now_sw) s = (phase s = Red \<and> phaseDuration s \<le> now - cycleStartTime s)"
| "advancing (ResetSwitchTimer now) s = True"
| "advancing _ s = False"

fun advances :: "dom \<Rightarrow> event list \<Rightarrow> state \<Rightarrow> nat" where
  "advances dm [] s = 0"
| "advances dm (e # es) s =
     (if advancing e s then 1 else 0)
     + (case step dm e s of None \<Rightarrow> 0 | Some s' \<Rightarrow> advances dm es s')"

text \<open>
  From the all-red phase after north's first green: east's green, cut short by an
  emergency override for north, then the greens of south, west and north.
\<close>

definition full_round :: "event list" where
  "full_round =
     [Tick 23000 23000, EmergencyOverride 24000 ''north'', Tick 27000 27000,
      Tick 29000 29000, Tick 44000 44000, Tick 47000 47000,
      Tick 49000 49000, Tick 64000 64000, Tick 67000 67000,
      Tick 69000 69000]"

text \<open>
  The events of a reset (the call and its two timers), and the snapshot results.
\<close>

fun is_reset :: "event \<Rightarrow> bool" where
  "is_reset (ResetSystem confirmed) = True"
| "is_reset ResetRequestTimer = True"
| "is_reset (ResetSwitchTimer now) = True"
| "is_reset _ = False"

fun is_result :: "event \<Rightarrow> bool" where
  "is_result (SnapshotResult d c g) = True"
| "is_result _ = False"

text \<open>
  A run stays in one green phase when every state along it is green and no event of a
  reset occurs: without the switch timer of a reset, green is entered only from all-red.
\<close>

fun green_throughout :: "dom \<Rightarrow> event list \<Rightarrow> state \<Rightarrow> bool" where
  "green_throughout dm [] s = (phase s = Green)"
| "green_throughout dm (e # es) s =
     (phase s = Green
      \<and> (case step dm e s of None \<Rightarrow> False | Some s' \<Rightarrow> green_throughout dm es s'))"

text \<open>
  The snapshot channel answers requests: \<open>channel_ok dm es s k\<close> says that, \<open>k\<close>
  results having been delivered before, every snapshot result in \<open>es\<close> arrives when more
  requests have been sent than results delivered. \<open>pending_ok s k\<close> says that at most one
  request is unanswered, and none when the pending flag is clear.
\<close>

fun channel_ok :: "dom \<Rightarrow> event list \<Rightarrow> state \<Rightarrow> nat \<Rightarrow> bool" where
  "channel_ok dm [] s k = True"
| "channel_ok dm (e # es) s k =
     (if is_result e
      then k < length (emitted s)
           \<and> (case step dm e s of None \<Rightarrow> True | Some s' \<Rightarrow> channel_ok dm es s' (Suc k))
      else (case step dm e s of None \<Rightarrow> True | Some s' \<Rightarrow> channel_ok dm es s' k))"

definition pending_ok :: "state \<Rightarrow> nat \<Rightarrow> bool" where
  "pending_ok s k =
     (k \<le> length (emitted s)
      \<and> length (emitted s) - k \<le> (if waitingForSnapshot s then 1 else 0))"

text \<open>
  Two runs inside north's first green. In the first the system is reset 3 s before the
  end of the green: the next frame requests a snapshot for north, which is answered, and
  the request timer of the reset then fires. In the second the frame 2 s before the end
  requests a snapshot for east, which is answered.
\<close>

definition reset_in_green :: "event list" where
  "reset_in_green =
     [ResetSystem True, Tick 15016 15016, SnapshotResult North 3 None, ResetRequestTimer]"

definition quiet_green :: "event list" where
  "quiet_green = [Tick 16000 16000, SnapshotResult East 2 None, Tick 16500 16500]"

text \<open>
  A reset confirmed while the page loads, whose request timer fires before the first
  timer of the initialization.
\<close>

definition early_reset :: "event list" where
  "early_reset = [ResetSystem True, ResetRequestTimer]"


text \<open>
  After the first green the rotation index is a position of the rotation, until a
  reset sets it back to \<open>-1\<close>.
\<close>

definition rotating :: "state \<Rightarrow> bool" where
  "rotating s = (0 \<le> currentCycleIndex s \<and> currentCycleIndex s \<le> 3)"

text \<open>The phase, the active approach, the rotation index and the cycle counter.\<close>

definition cycle_view :: "state \<Rightarrow> phase \<times> direction option \<times> int \<times> int" where
  "cycle_view s =
     (phase s, getActiveDirections s, currentCycleIndex s, totalCyclesCompleted s)"

text \<open>
  A reset during the all-red phase after north's first green, with an emergency override
  for south between its two timers.
\<close>

definition override_after_reset :: "event list" where
  "override_after_reset =
     [ResetSystem True, ResetRequestTimer, EmergencyOverride 22000 ''south'',
      ResetSwitchTimer 22500]"

text \<open>
  A reset during the all-red phase after north's first green, and the frame at the end
  of that phase.
\<close>

definition reset_then_frame :: "event list" where
  "reset_then_frame = [ResetSystem True, Tick 23000 23000]"

section \<open>Basic facts\<close>

text \<open>Setting lights changes \<open>currentLights\<close> and nothing else.\<close>

lemma setLight_shape: "\<exists>f. setLight dm d c s = s\<lparr>currentLights := f\<rparr>"
  by (auto simp: setLight_def intro: exI[of _ "currentLights s"])

lemma setLights_shape: "\<exists>f. setLights dm ds c s = s\<lparr>currentLights := f\<rparr>"
proof (induction ds arbitrary: s)
  case Nil
  show ?case by (auto simp: setLights_def intro: exI[of _ "currentLights s"])
next
  case (Cons d ds)
  obtain f where f: "setLight dm d c s = s\<lparr>currentLights := f\<rparr>"
    using setLight_shape by blast
  obtain g where g: "setLights dm ds c (s\<lparr>currentLights := f\<rparr>)
      = s\<lparr>currentLights := f\<rparr>\<lparr>currentLights := g\<rparr>"
    using Cons.IH by blast
  show ?case using f g by (auto simp: setLights_def)
qed

lemma updateLights_shape: "\<exists>f. updateLights dm s = s\<lparr>currentLights := f\<rparr>"
proof -
  have keep: "\<exists>f. s = s\<lparr>currentLights := f\<rparr>"
    by (rule exI[of _ "currentLights s"]) simp
  have two: "\<exists>f. setLights dm xs c (setLights dm ys c' s) = s\<lparr>currentLights := f\<rparr>"
    for xs ys c c'
  proof -
    obtain f where f: "setLights dm ys c' s = s\<lparr>currentLights := f\<rparr>"
      using setLights_shape by blast
    obtain g where "setLights dm xs c (s\<lparr>currentLights := f\<rparr>)
        = s\<lparr>currentLights := f\<rparr>\<lparr>currentLights := g\<rparr>"
      using setLights_shape by blast
    with f show ?thesis by auto
  qed
  show ?thesis
    unfolding updateLights_def Let_def
    using keep two setLights_shape by auto
qed

lemma updateLights_fields [simp]:
  "realCarCounts (updateLights dm s) = realCarCounts s"
  "phase (updateLights dm s) = phase s"
  "currentCycleIndex (updateLights dm s) = currentCycleIndex s"
  "cycleStartTime (updateLights dm s) = cycleStartTime s"
  "phaseDuration (updateLights dm s) = phaseDuration s"
  "cycleCount (updateLights dm s) = cycleCount s"
  "startTime (updateLights dm s) = startTime s"
  "emergencyMode (updateLights dm s) = emergencyMode s"
  "emergencyDirection (updateLights dm s) = emergencyDirection s"
  "totalCyclesCompleted (updateLights dm s) = totalCyclesCompleted s"
  "snapshotTaken (updateLights dm s) = snapshotTaken s"
  "nextDirectionCount (updateLights dm s) = nextDirectionCount s"
  "nextDirectionGreenTime (updateLights dm s) = nextDirectionGreenTime s"
  "waitingForSnapshot (updateLights dm s) = waitingForSnapshot s"
  "isFirstCycle (updateLights dm s) = isFirstCycle s"
  "emitted (updateLights dm s) = emitted s"
  using updateLights_shape[of dm s] by auto

lemma getActiveDirections_updateLights [simp]:
  "getActiveDirections (updateLights dm s) = getActiveDirections s"
  by (auto simp add: getActiveDirections_def)

text \<open>The equations that evaluate the model on a concrete input.\<close>

lemmas config_defs = YELLOW_TIME_def ALL_RED_TIME_def CYCLE_ORDER_def
  SNAPSHOT_BEFORE_END_def EMERGENCY_GREEN_TIME_def DEFAULT_FIRST_GREEN_def

lemmas model_defs = boot_def initStartTimer_def initRequestTimer_def initial_state_def
  switchCycle_def mainLoop_def updateLights_def setLights_def setLight_def allDirs_def
  getActiveDirections_def getNextDirection_def requestSnapshotForNextDirection_def
  cycle_order_at_def js_rem_def config_defs emergencyOverride_def parse_direction_def
  resetSystem_def resetRequestTimer_def resetSwitchTimer_def snapshot_result_def
  traffic_update_def calculateSmartTime_def all_dom_def Let_def

subsection \<open>The rotation index and the frames of the main loop\<close>


lemma next_index:
  assumes "index_ok s"
  shows "js_rem (currentCycleIndex s + 1) (int (length CYCLE_ORDER)) = (currentCycleIndex s + 1) mod 4"
  using assms by (simp add: index_ok_def js_rem_def CYCLE_ORDER_def)

lemma mod4_bounds: "- 1 \<le> (i::int) mod 4 \<and> i mod 4 \<le> 3 \<and> i mod 4 \<noteq> - 1"
  by presburger

lemma cycle_order_at_mod: "cycle_order_at (i mod 4) = Some (CYCLE_ORDER ! nat (i mod 4))"
  by (simp add: cycle_order_at_def CYCLE_ORDER_def)

lemma getNextDirection_ok:
  "index_ok s \<Longrightarrow> getNextDirection s = Some (CYCLE_ORDER ! nat ((currentCycleIndex s + 1) mod 4))"
  by (simp add: getNextDirection_def next_index cycle_order_at_mod)

lemma getActiveDirections_ok:
  assumes "index_ok s"
  shows "\<exists>d. getActiveDirections s = Some d"
proof -
  have "currentCycleIndex s \<noteq> - 1 \<Longrightarrow> cycle_order_at (currentCycleIndex s) \<noteq> None"
    using assms by (simp add: index_ok_def cycle_order_at_def CYCLE_ORDER_def)
  then show ?thesis
    by (auto simp: getActiveDirections_def)
qed

lemma switchCycle_total:
  assumes "index_ok s"
  shows "\<exists>s'. switchCycle dm now s = Some s'
      \<and> index_ok s'
      \<and> phase s' = Green \<and> \<not> snapshotTaken s' \<and> \<not> isFirstCycle s'
      \<and> cycleStartTime s' = now
      \<and> currentCycleIndex s' = (currentCycleIndex s + 1) mod 4
      \<and> totalCyclesCompleted s'
          = totalCyclesCompleted s + (if currentCycleIndex s' = 0 then 1 else 0)
      \<and> phaseDuration s'
          = (if isFirstCycle s then DEFAULT_FIRST_GREEN
             else if emergencyMode s then EMERGENCY_GREEN_TIME
             else if nextDirectionGreenTime s \<noteq> 0 then nextDirectionGreenTime s
             else calculateSmartTime (nextDirectionCount s))
      \<and> emergencyMode s' = emergencyMode s \<and> emergencyDirection s' = emergencyDirection s
      \<and> emitted s' = emitted s \<and> waitingForSnapshot s' = waitingForSnapshot s
      \<and> realCarCounts s' = realCarCounts s
      \<and> nextDirectionCount s' = nextDirectionCount s
      \<and> nextDirectionGreenTime s' = nextDirectionGreenTime s"
proof -
  let ?i = "(currentCycleIndex s + 1) mod 4"
  let ?s3 = "s\<lparr>currentCycleIndex := ?i,
              totalCyclesCompleted := totalCyclesCompleted s + (if ?i = 0 then 1 else 0),
              phase := Green, snapshotTaken := False\<rparr>"
  have "index_ok ?s3"
    by (simp add: index_ok_def mod4_bounds)
  then obtain d where d: "getActiveDirections ?s3 = Some d"
    using getActiveDirections_ok by blast
  have s3: "(let s = s\<lparr>currentCycleIndex :=
                  js_rem (currentCycleIndex s + 1) (int (length CYCLE_ORDER))\<rparr>;
          s = (if currentCycleIndex s = 0
               then s\<lparr>totalCyclesCompleted := totalCyclesCompleted s + 1\<rparr> else s)
          in s\<lparr>phase := Green, snapshotTaken := False\<rparr>) = ?s3"
    by (simp add: next_index[OF assms] Let_def)
  show ?thesis
    unfolding switchCycle_def
    using d s3
    by (cases "isFirstCycle s") (simp_all add: Let_def index_ok_def mod4_bounds)
qed

lemma switchCycle_active:
  assumes "index_ok s" "switchCycle dm now s = Some s'" "\<not> emergencyMode s"
  shows "getActiveDirections s' = Some (CYCLE_ORDER ! nat (currentCycleIndex s'))"
proof -
  have "currentCycleIndex s' = (currentCycleIndex s + 1) mod 4" "\<not> emergencyMode s'"
    using switchCycle_total[OF assms(1), of dm now] assms(2,3) by auto
  then show ?thesis
    using cycle_order_at_mod[of "currentCycleIndex s + 1"]
    by (simp add: getActiveDirections_def mod4_bounds)
qed

lemma mainLoop_Initializing:
  "phase s = Initializing \<Longrightarrow> mainLoop dm now now_sw s = Some s"
  by (simp add: mainLoop_def Let_def)

lemma mainLoop_Yellow:
  "phase s = Yellow \<Longrightarrow> mainLoop dm now now_sw s =
     Some (if now - cycleStartTime s \<ge> phaseDuration s
           then updateLights dm
                  (s\<lparr>phase := Red, phaseDuration := ALL_RED_TIME, cycleStartTime := now\<rparr>)
           else s)"
  by (simp add: mainLoop_def Let_def)

lemma mainLoop_Red:
  "phase s = Red \<Longrightarrow> mainLoop dm now now_sw s =
     (if now - cycleStartTime s \<ge> phaseDuration s
      then switchCycle dm now_sw
             (if emergencyMode s
              then s\<lparr>emergencyMode := False, emergencyDirection := None\<rparr> else s)
      else Some s)"
  by (simp add: mainLoop_def Let_def)

lemma mainLoop_Green:
  assumes "phase s = Green" "index_ok s"
  shows "mainLoop dm now now_sw s =
     Some (if now - cycleStartTime s \<ge> phaseDuration s
           then updateLights dm
                  (s\<lparr>phase := Yellow, phaseDuration := YELLOW_TIME, cycleStartTime := now\<rparr>)
           else if \<not> snapshotTaken s \<and> \<not> emergencyMode s
                   \<and> phaseDuration s - (now - cycleStartTime s) \<le> SNAPSHOT_BEFORE_END
           then (if waitingForSnapshot s then s\<lparr>snapshotTaken := True\<rparr>
                 else s\<lparr>snapshotTaken := True, waitingForSnapshot := True,
                        emitted := emitted s @ [CYCLE_ORDER ! nat ((currentCycleIndex s + 1) mod 4)]\<rparr>)
           else s)"
proof -
  obtain d where d: "getActiveDirections s = Some d"
    using getActiveDirections_ok[OF assms(2)] by blast
  have n: "getNextDirection (s\<lparr>snapshotTaken := True\<rparr>)
             = Some (CYCLE_ORDER ! nat ((currentCycleIndex s + 1) mod 4))"
    using getNextDirection_ok[of "s\<lparr>snapshotTaken := True\<rparr>"] assms(2)
    by (simp add: index_ok_def)
  show ?thesis
    using assms(1) d n
    by (simp add: mainLoop_def Let_def requestSnapshotForNextDirection_def)
qed

lemma red_after_north_reached:
  "Option.bind (boot all_dom 0 3000) (run all_dom [Tick 18000 18000, Tick 21000 21000])
     = Some red_after_north"
  by (simp add: model_defs red_after_north_def fun_eq_iff)

lemma north_green_reached:
  "Option.bind (boot all_dom 0 3000) (run all_dom [SnapshotResult North 4 None])
     = Some north_green"
  by (simp add: model_defs north_green_def fun_eq_iff)

lemma mainLoop_effect:
  assumes "index_ok s"
  shows "\<exists>s'. mainLoop dm now now_sw s = Some s' \<and> index_ok s'
     \<and> (if phase s = Red \<and> phaseDuration s \<le> now - cycleStartTime s
         then phase s' = Green
              \<and> currentCycleIndex s' = (currentCycleIndex s + 1) mod 4
              \<and> totalCyclesCompleted s'
                  = totalCyclesCompleted s + (if currentCycleIndex s' = 0 then 1 else 0)
              \<and> \<not> emergencyMode s'
              \<and> getActiveDirections s' = Some (CYCLE_ORDER ! nat (currentCycleIndex s'))
         else currentCycleIndex s' = currentCycleIndex s
              \<and> totalCyclesCompleted s' = totalCyclesCompleted s
              \<and> emergencyMode s' = emergencyMode s
              \<and> (phase s' = phase s \<or> phase s = Green \<and> phase s' = Yellow
                  \<or> phase s = Yellow \<and> phase s' = Red))"
proof (cases "phase s")
  case Initializing
  then show ?thesis using assms by (simp add: mainLoop_Initializing)
next
  case Green
  then show ?thesis using assms by (simp add: mainLoop_Green[OF Green assms] index_ok_def)
next
  case Yellow
  then show ?thesis using assms by (simp add: mainLoop_Yellow index_ok_def)
next
  case Red
  show ?thesis
  proof (cases "phaseDuration s \<le> now - cycleStartTime s")
    case False
    then show ?thesis using Red assms by (simp add: mainLoop_Red)
  next
    case True
    let ?q = "if emergencyMode s
              then s\<lparr>emergencyMode := False, emergencyDirection := None\<rparr> else s"
    have q: "index_ok ?q" "\<not> emergencyMode ?q" "currentCycleIndex ?q = currentCycleIndex s"
      "totalCyclesCompleted ?q = totalCyclesCompleted s"
      using assms by (simp_all add: index_ok_def)
    have m: "mainLoop dm now now_sw s = switchCycle dm now_sw ?q"
      using Red True by (simp add: mainLoop_Red)
    obtain s' where s': "switchCycle dm now_sw ?q = Some s'" "index_ok s'" "phase s' = Green"
       "currentCycleIndex s' = (currentCycleIndex ?q + 1) mod 4"
       "totalCyclesCompleted s'
          = totalCyclesCompleted ?q + (if currentCycleIndex s' = 0 then 1 else 0)"
       "emergencyMode s' = emergencyMode ?q"
      using switchCycle_total[OF q(1), of dm now_sw] by blast
    have "getActiveDirections s' = Some (CYCLE_ORDER ! nat (currentCycleIndex s'))"
      using switchCycle_active[OF q(1) s'(1) q(2)] .
    then show ?thesis
      using Red True m s' q by simp
  qed
qed

lemma step_total:
  assumes "index_ok s"
  shows "\<exists>s'. step dm e s = Some s' \<and> index_ok s'"
proof (cases e)
  case (Tick now now_sw)
  then show ?thesis using mainLoop_effect[OF assms, of dm now now_sw] by auto
next
  case (TrafficUpdate n so ea w)
  then show ?thesis using assms by (simp add: traffic_update_def index_ok_def)
next
  case (SnapshotResult d c g)
  then show ?thesis using assms by (simp add: snapshot_result_def index_ok_def Let_def)
next
  case (EmergencyOverride now x)
  then show ?thesis using assms
    by (simp add: emergencyOverride_def index_ok_def split: option.splits)
next
  case (ResetSystem c)
  then show ?thesis using assms by (simp add: resetSystem_def index_ok_def)
next
  case ResetRequestTimer
  then show ?thesis using assms getNextDirection_ok[OF assms]
    by (simp add: resetRequestTimer_def requestSnapshotForNextDirection_def index_ok_def)
next
  case (ResetSwitchTimer now)
  then show ?thesis using switchCycle_total[OF assms, of dm now]
    by (auto simp: resetSwitchTimer_def)
qed

lemma step_index_effect:
  assumes "index_ok s" and "e \<noteq> ResetSystem True"
  shows "\<exists>s'. step dm e s = Some s' \<and> index_ok s'
     \<and> (if advancing e s
         then currentCycleIndex s' = (currentCycleIndex s + 1) mod 4
              \<and> totalCyclesCompleted s'
                  = totalCyclesCompleted s + (if currentCycleIndex s' = 0 then 1 else 0)
         else currentCycleIndex s' = currentCycleIndex s
              \<and> totalCyclesCompleted s' = totalCyclesCompleted s)"
proof (cases e)
  case (Tick now now_sw)
  then show ?thesis
    using mainLoop_effect[OF assms(1), of dm now now_sw]
    by (auto split: if_splits)
next
  case (TrafficUpdate n so ea w)
  then show ?thesis using assms by (simp add: traffic_update_def index_ok_def)
next
  case (SnapshotResult d c g)
  then show ?thesis using assms by (simp add: snapshot_result_def index_ok_def Let_def)
next
  case (EmergencyOverride now x)
  then show ?thesis using assms
    by (auto simp add: emergencyOverride_def index_ok_def split: option.splits)
next
  case (ResetSystem c)
  then show ?thesis using assms by (simp add: resetSystem_def index_ok_def)
next
  case ResetRequestTimer
  then show ?thesis using assms getNextDirection_ok[OF assms(1)]
    by (simp add: resetRequestTimer_def requestSnapshotForNextDirection_def index_ok_def)
next
  case (ResetSwitchTimer now)
  then show ?thesis using switchCycle_total[OF assms(1), of dm now]
    by (auto simp: resetSwitchTimer_def)
qed

lemma wrap_arith:
  fixes i n :: int
  assumes "0 \<le> i" "i \<le> 3" "0 \<le> n"
  shows "((i + 1) mod 4 + n) mod 4 = (i + (1 + n)) mod 4"
    and "(if (i + 1) mod 4 = 0 then 1 else 0) + ((i + 1) mod 4 + n) div 4 = (i + (1 + n)) div 4"
proof -
  consider "i = 0" | "i = 1" | "i = 2" | "i = 3"
    using assms(1,2) by linarith
  then show "((i + 1) mod 4 + n) mod 4 = (i + (1 + n)) mod 4"
    by cases (simp_all add: algebra_simps)
  consider "i = 0" | "i = 1" | "i = 2" | "i = 3"
    using assms(1,2) by linarith
  then show "(if (i + 1) mod 4 = 0 then 1 else 0) + ((i + 1) mod 4 + n) div 4
               = (i + (1 + n)) div 4"
    by cases (simp_all add: algebra_simps)
qed

lemma run_rotation:
  assumes "rotating s" and "ResetSystem True \<notin> set es"
  shows "\<exists>s'. run dm es s = Some s' \<and> rotating s'
     \<and> currentCycleIndex s' = (currentCycleIndex s + int (advances dm es s)) mod 4
     \<and> totalCyclesCompleted s'
         = totalCyclesCompleted s + (currentCycleIndex s + int (advances dm es s)) div 4"
  using assms
proof (induction es arbitrary: s)
  case Nil
  then show ?case by (simp add: rotating_def)
next
  case (Cons e es)
  from Cons.prems have ne: "e \<noteq> ResetSystem True" and rest: "ResetSystem True \<notin> set es"
    by auto
  have i: "0 \<le> currentCycleIndex s" "currentCycleIndex s \<le> 3"
    using Cons.prems(1) by (simp_all add: rotating_def)
  have ok: "index_ok s"
    using i by (simp add: index_ok_def)
  obtain s1 where s1: "step dm e s = Some s1"
    and eff: "if advancing e s
         then currentCycleIndex s1 = (currentCycleIndex s + 1) mod 4
              \<and> totalCyclesCompleted s1
                  = totalCyclesCompleted s + (if currentCycleIndex s1 = 0 then 1 else 0)
         else currentCycleIndex s1 = currentCycleIndex s
              \<and> totalCyclesCompleted s1 = totalCyclesCompleted s"
    using step_index_effect[OF ok ne, of dm] by blast
  have r1: "rotating s1"
  proof (cases "advancing e s")
    case True
    then have "currentCycleIndex s1 = (currentCycleIndex s + 1) mod 4"
      using eff by simp
    then show ?thesis
      using mod4_bounds[of "currentCycleIndex s + 1"] by (simp add: rotating_def)
  next
    case False
    then show ?thesis using eff i by (simp add: rotating_def)
  qed
  obtain s' where s': "run dm es s1 = Some s'" "rotating s'"
    and idx: "currentCycleIndex s' = (currentCycleIndex s1 + int (advances dm es s1)) mod 4"
    and tot: "totalCyclesCompleted s'
         = totalCyclesCompleted s1 + (currentCycleIndex s1 + int (advances dm es s1)) div 4"
    using Cons.IH[OF r1 rest] by blast
  have r: "run dm (e # es) s = Some s'"
    using s1 s'(1) by simp
  have key: "currentCycleIndex s'
         = (currentCycleIndex s + int (advances dm (e # es) s)) mod 4
     \<and> totalCyclesCompleted s'
         = totalCyclesCompleted s
           + (currentCycleIndex s + int (advances dm (e # es) s)) div 4"
  proof (cases "advancing e s")
    case True
    have adv: "int (advances dm (e # es) s) = 1 + int (advances dm es s1)"
      using True s1 by simp
    have n0: "0 \<le> int (advances dm es s1)"
      by simp
    have e1: "currentCycleIndex s1 = (currentCycleIndex s + 1) mod 4"
      and e2: "totalCyclesCompleted s1
                  = totalCyclesCompleted s + (if currentCycleIndex s1 = 0 then 1 else 0)"
      using eff True by simp_all
    note w = wrap_arith[OF i n0]
    have a: "currentCycleIndex s'
         = (currentCycleIndex s + (1 + int (advances dm es s1))) mod 4"
      using idx w(1) unfolding e1 by simp
    have b: "totalCyclesCompleted s'
         = totalCyclesCompleted s
           + (currentCycleIndex s + (1 + int (advances dm es s1))) div 4"
      using tot e2 w(2) unfolding e1 by linarith
    show ?thesis
      unfolding adv using a b by blast
  next
    case False
    have adv: "advances dm (e # es) s = advances dm es s1"
      using False s1 by simp
    have e1: "currentCycleIndex s1 = currentCycleIndex s"
      and e2: "totalCyclesCompleted s1 = totalCyclesCompleted s"
      using eff False by simp_all
    show ?thesis
      using idx tot unfolding adv e1 e2 by blast
  qed
  show ?case
    using r s'(2) key by blast
qed

subsection \<open>Requests and results along a run\<close>

lemma mainLoop_emit:
  assumes "index_ok s"
  shows "\<exists>s'. mainLoop dm now now_sw s = Some s'
     \<and> (emitted s' = emitted s \<and> waitingForSnapshot s' = waitingForSnapshot s
          \<and> (phase s = Green \<and> snapshotTaken s \<longrightarrow> snapshotTaken s')
        \<or> \<not> waitingForSnapshot s \<and> waitingForSnapshot s'
          \<and> \<not> snapshotTaken s \<and> snapshotTaken s'
          \<and> length (emitted s') = Suc (length (emitted s)))"
proof (cases "phase s")
  case Initializing
  then show ?thesis by (simp add: mainLoop_Initializing)
next
  case Green
  show ?thesis by (simp add: mainLoop_Green[OF Green assms])
next
  case Yellow
  then show ?thesis by (simp add: mainLoop_Yellow)
next
  case Red
  let ?q = "if emergencyMode s
            then s\<lparr>emergencyMode := False, emergencyDirection := None\<rparr> else s"
  have q: "index_ok ?q" "emitted ?q = emitted s" "waitingForSnapshot ?q = waitingForSnapshot s"
    using assms by (simp_all add: index_ok_def)
  obtain s' where s': "switchCycle dm now_sw ?q = Some s'" "emitted s' = emitted ?q"
    "waitingForSnapshot s' = waitingForSnapshot ?q"
    using switchCycle_total[OF q(1), of dm now_sw] by blast
  show ?thesis
  proof (cases "phaseDuration s \<le> now - cycleStartTime s")
    case True
    then have "mainLoop dm now now_sw s = Some s'"
      using Red s'(1) by (simp add: mainLoop_Red)
    then show ?thesis using s'(2,3) q(2,3) Red by simp
  next
    case False
    then show ?thesis using Red by (simp add: mainLoop_Red)
  qed
qed

lemma step_emit:
  assumes "index_ok s" and "\<not> is_result e"
  shows "\<exists>s'. step dm e s = Some s' \<and> index_ok s'
     \<and> (emitted s' = emitted s \<and> waitingForSnapshot s' = waitingForSnapshot s
        \<or> \<not> waitingForSnapshot s \<and> waitingForSnapshot s'
          \<and> length (emitted s') = Suc (length (emitted s)))"
proof -
  obtain s' where s': "step dm e s = Some s'" "index_ok s'"
    using step_total[OF assms(1)] by blast
  have "emitted s' = emitted s \<and> waitingForSnapshot s' = waitingForSnapshot s
        \<or> \<not> waitingForSnapshot s \<and> waitingForSnapshot s'
          \<and> length (emitted s') = Suc (length (emitted s))"
  proof (cases e)
    case (Tick now now_sw)
    then show ?thesis
      using mainLoop_emit[OF assms(1), of dm now now_sw] s'(1) by auto
  next
    case (TrafficUpdate n so ea w)
    then show ?thesis using s'(1) by (auto simp: traffic_update_def)
  next
    case (SnapshotResult d c g)
    then show ?thesis using assms(2) by simp
  next
    case (EmergencyOverride now x)
    then show ?thesis using s'(1)
      by (auto simp: emergencyOverride_def split: option.splits)
  next
    case (ResetSystem c)
    then show ?thesis using s'(1) by (cases c) (auto simp: resetSystem_def)
  next
    case ResetRequestTimer
    then show ?thesis using s'(1)
      by (auto simp: resetRequestTimer_def requestSnapshotForNextDirection_def
               split: if_splits option.splits)
  next
    case (ResetSwitchTimer now)
    then show ?thesis using switchCycle_total[OF assms(1), of dm now] s'(1)
      by (auto simp: resetSwitchTimer_def)
  qed
  with s' show ?thesis by blast
qed

lemma run_pending_ok:
  assumes "index_ok s" and "pending_ok s k" and "channel_ok dm es s k"
  shows "\<exists>s'. run dm es s = Some s' \<and> index_ok s'
           \<and> pending_ok s' (k + length (filter is_result es))"
  using assms
proof (induction es arbitrary: s k)
  case Nil
  then show ?case by simp
next
  case (Cons e es)
  show ?case
  proof (cases "is_result e")
    case True
    then obtain d c g where e: "e = SnapshotResult d c g"
      by (cases e) auto
    let ?s1 = "snapshot_result d c g s"
    have ch: "k < length (emitted s)" "channel_ok dm es ?s1 (Suc k)"
      using Cons.prems(3) e by simp_all
    have f: "emitted ?s1 = emitted s" "\<not> waitingForSnapshot ?s1"
      "currentCycleIndex ?s1 = currentCycleIndex s"
      by (simp_all add: snapshot_result_def Let_def)
    have ok1: "index_ok ?s1"
      using Cons.prems(1) f(3) by (simp add: index_ok_def)
    have p1: "pending_ok ?s1 (Suc k)"
      using Cons.prems(2) ch(1) f(1,2) by (auto simp: pending_ok_def split: if_splits)
    obtain s' where "run dm es ?s1 = Some s'" "index_ok s'"
      "pending_ok s' (Suc k + length (filter is_result es))"
      using Cons.IH[OF ok1 p1 ch(2)] by blast
    then show ?thesis using e by simp
  next
    case False
    obtain s1 where s1: "step dm e s = Some s1" "index_ok s1"
      and em: "emitted s1 = emitted s \<and> waitingForSnapshot s1 = waitingForSnapshot s
        \<or> \<not> waitingForSnapshot s \<and> waitingForSnapshot s1
          \<and> length (emitted s1) = Suc (length (emitted s))"
      using step_emit[OF Cons.prems(1) False, of dm] by blast
    have ch: "channel_ok dm es s1 k"
      using Cons.prems(3) False s1(1) by simp
    have p1: "pending_ok s1 k"
      using Cons.prems(2) em by (auto simp: pending_ok_def split: if_splits)
    obtain s' where "run dm es s1 = Some s'" "index_ok s'"
      "pending_ok s' (k + length (filter is_result es))"
      using Cons.IH[OF s1(2) p1 ch] by blast
    then show ?thesis using s1(1) False by simp
  qed
qed

lemma green_throughout_start: "green_throughout dm es s \<Longrightarrow> phase s = Green"
  by (cases es) simp_all

lemma step_green:
  assumes "index_ok s" and "phase s = Green" and "\<not> is_reset e"
    and "step dm e s = Some s1" and "phase s1 = Green"
  shows "emitted s1 = emitted s \<and> (snapshotTaken s \<longrightarrow> snapshotTaken s1)
        \<or> \<not> snapshotTaken s \<and> snapshotTaken s1
          \<and> length (emitted s1) = Suc (length (emitted s))"
proof (cases e)
  case (Tick now now_sw)
  then show ?thesis
    using mainLoop_emit[OF assms(1), of dm now now_sw] assms(2,4) by auto
next
  case (TrafficUpdate n so ea w)
  then show ?thesis using assms(4) by (auto simp: traffic_update_def)
next
  case (SnapshotResult d c g)
  then show ?thesis using assms(4) by (auto simp: snapshot_result_def Let_def)
next
  case (EmergencyOverride now x)
  then show ?thesis using assms(4,5)
    by (auto simp: emergencyOverride_def split: option.splits)
next
  case (ResetSystem c)
  then show ?thesis using assms(3) by simp
next
  case ResetRequestTimer
  then show ?thesis using assms(3) by simp
next
  case (ResetSwitchTimer now)
  then show ?thesis using assms(3) by simp
qed

lemma run_green:
  assumes "index_ok s" and "\<forall>e \<in> set es. \<not> is_reset e" and "green_throughout dm es s"
  shows "\<exists>s'. run dm es s = Some s'
           \<and> (snapshotTaken s \<longrightarrow> emitted s' = emitted s)
           \<and> length (emitted s') \<le> Suc (length (emitted s))"
  using assms
proof (induction es arbitrary: s)
  case Nil
  then show ?case by simp
next
  case (Cons e es)
  from Cons.prems(3) obtain s1 where g: "phase s = Green" and s1: "step dm e s = Some s1"
    and g1: "green_throughout dm es s1"
    by (auto split: option.splits)
  have ne: "\<not> is_reset e" and rest: "\<forall>e \<in> set es. \<not> is_reset e"
    using Cons.prems(2) by simp_all
  have ok1: "index_ok s1"
    using step_total[OF Cons.prems(1), of dm e] s1 by simp
  have st: "emitted s1 = emitted s \<and> (snapshotTaken s \<longrightarrow> snapshotTaken s1)
        \<or> \<not> snapshotTaken s \<and> snapshotTaken s1
          \<and> length (emitted s1) = Suc (length (emitted s))"
    using step_green[OF Cons.prems(1) g ne s1 green_throughout_start[OF g1]] .
  obtain s' where s': "run dm es s1 = Some s'"
    "snapshotTaken s1 \<longrightarrow> emitted s' = emitted s1"
    "length (emitted s') \<le> Suc (length (emitted s1))"
    using Cons.IH[OF ok1 rest g1] by blast
  have "run dm (e # es) s = Some s'"
    using s1 s'(1) by simp
  moreover have "snapshotTaken s \<longrightarrow> emitted s' = emitted s"
    using st s'(2) by auto
  moreover have "length (emitted s') \<le> Suc (length (emitted s))"
    using st s'(2,3) by auto
  ultimately show ?case by blast
qed

lemma boot_pending_ok: "\<exists>s0. boot dm t0 t1 = Some s0 \<and> index_ok s0 \<and> pending_ok s0 0"
proof -
  let ?s = "initRequestTimer (initial_state t0)"
  let ?q = "if nextDirectionGreenTime ?s = 0
            then (if nextDirectionCount ?s = 0
                  then ?s\<lparr>nextDirectionCount := realCarCounts ?s North\<rparr> else ?s)
                   \<lparr>nextDirectionGreenTime := DEFAULT_FIRST_GREEN\<rparr>
            else (if nextDirectionCount ?s = 0
                  then ?s\<lparr>nextDirectionCount := realCarCounts ?s North\<rparr> else ?s)"
  have b: "boot dm t0 t1 = switchCycle dm t1 ?q"
    by (simp add: boot_def initStartTimer_def Let_def)
  have q: "index_ok ?q" "emitted ?q = [North]" "waitingForSnapshot ?q"
    by (simp_all add: initRequestTimer_def initial_state_def index_ok_def)
  obtain s0 where "switchCycle dm t1 ?q = Some s0" "index_ok s0" "emitted s0 = emitted ?q"
    "waitingForSnapshot s0 = waitingForSnapshot ?q"
    using switchCycle_total[OF q(1), of dm t1] by blast
  then show ?thesis
    using b q(2,3) by (simp add: pending_ok_def)
qed

lemma initRequestTimer_pending:
  assumes "index_ok s" and "pending_ok s k" and "length (emitted s) = k"
  shows "index_ok (initRequestTimer s) \<and> pending_ok (initRequestTimer s) k"
  using assms by (simp add: initRequestTimer_def index_ok_def pending_ok_def)

lemma initStartTimer_pending:
  assumes "index_ok s" and "pending_ok s k"
  shows "\<exists>s'. initStartTimer dm t1 s = Some s' \<and> index_ok s' \<and> pending_ok s' k"
proof -
  let ?q = "if nextDirectionGreenTime s = 0
            then (if nextDirectionCount s = 0
                  then s\<lparr>nextDirectionCount := realCarCounts s North\<rparr> else s)
                   \<lparr>nextDirectionGreenTime := DEFAULT_FIRST_GREEN\<rparr>
            else (if nextDirectionCount s = 0
                  then s\<lparr>nextDirectionCount := realCarCounts s North\<rparr> else s)"
  have b: "initStartTimer dm t1 s = switchCycle dm t1 ?q"
    by (simp add: initStartTimer_def Let_def)
  have q: "index_ok ?q" "emitted ?q = emitted s"
    "waitingForSnapshot ?q = waitingForSnapshot s"
    using assms(1) by (simp_all add: index_ok_def)
  obtain s' where "switchCycle dm t1 ?q = Some s'" "index_ok s'" "emitted s' = emitted ?q"
    "waitingForSnapshot s' = waitingForSnapshot ?q"
    using switchCycle_total[OF q(1), of dm t1] by blast
  then show ?thesis
    using b q(2,3) assms(2) by (simp add: pending_ok_def)
qed

subsection \<open>The stored snapshot values along a run\<close>





section \<open>The timing policy\<close>

text \<open>
  C7. For every vehicle count \<open>c\<close> (every integer, so every non-negative one),
  \<open>calculateSmartTime c\<close> is \<open>5000 + c * 3000\<close> clamped to the interval from 10000 to
  60000; it is 10000 at 0, 20000 at 5 and 60000 at 25, and it always lies between 10000
  and 60000.
\<close>

theorem calculateSmartTime_clamped:
  "calculateSmartTime c = min 60000 (max 10000 (5000 + c * 3000))
   \<and> calculateSmartTime 0 = 10000
   \<and> calculateSmartTime 5 = 20000
   \<and> calculateSmartTime 25 = 60000
   \<and> 10000 \<le> calculateSmartTime c \<and> calculateSmartTime c \<le> 60000"
  by (simp add: calculateSmartTime_def Let_def)

section \<open>Emergency preemption\<close>

text \<open>
  C1. The claim: after \<open>emergencyOverride a\<close> the machine passes through yellow and
  all-red, and at the next transition from all-red to green the approach that turns green
  is \<open>a\<close>, for the emergency green time of 30000 ms, and emergency mode is cleared at
  that transition. The code on the scenario above: the yellow and the all-red phase are
  pinned to south, but \<open>mainLoop\<close> clears the emergency flags before it calls
  \<open>switchCycle\<close>, so the green goes to east, the next approach of the rotation, for the
  duration of the ordinary branch (15000 ms here), and south stays red.
\<close>

theorem emergency_green_goes_to_rotation:
  "map_option observe (boot all_dom 0 3000) = Some (Green, Some North, 15000, False, None)
   \<and> map_option observe
        (Option.bind (boot all_dom 0 3000) (run all_dom (take 2 emergency_scenario)))
       = Some (Yellow, Some South, 3000, True, Some South)
   \<and> map_option observe
        (Option.bind (boot all_dom 0 3000) (run all_dom (take 3 emergency_scenario)))
       = Some (Red, Some South, 2000, True, Some South)
   \<and> map_option observe
        (Option.bind (boot all_dom 0 3000) (run all_dom emergency_scenario))
       = Some (Green, Some East, 15000, False, None)
   \<and> map_option (\<lambda>s. map (currentLights s) [North, East, South, West])
        (Option.bind (boot all_dom 0 3000) (run all_dom emergency_scenario))
       = Some [LRed, LGreen, LRed, LRed]
   \<and> EMERGENCY_GREEN_TIME = 30000"
  by (simp add: model_defs observe_def emergency_scenario_def)

section \<open>Reset\<close>

text \<open>
  C10, as stated, fails in its last clause, that the running phase continues until the
  deferred \<open>switchCycle\<close> fires: the main loop keeps running after a reset. A reset
  during the all-red phase after north's first green leaves the phase all-red, and the
  frame at the end of that phase turns it green before either timer of the reset has
  fired.
\<close>

theorem reset_phase_counterexample:
  "map_option phase (run all_dom (take 1 reset_then_frame) red_after_north) = Some Red
   \<and> filter is_reset (drop 1 reset_then_frame) = []
   \<and> map_option phase (run all_dom reset_then_frame red_after_north) = Some Green"
  by (simp add: model_defs reset_then_frame_def red_after_north_def)

text \<open>
  C10, amended. When \<open>resetSystem\<close> returns, whatever the answer to its dialog, the
  vehicle counts, the light colours, the phase, its duration and its start time are what
  they were; so are the start time of the page, the stored next-direction count and
  green time, the pending flag and the requests sent. Only the emergency flags, the two
  cycle counters, the rotation index, \<open>snapshotTaken\<close> and \<open>isFirstCycle\<close> can differ.
  So vehicle counts survive a reset, and the reset itself does not end or restart the
  running phase.
\<close>

theorem resetSystem_frame:
  "realCarCounts (resetSystem confirmed s) = realCarCounts s
   \<and> currentLights (resetSystem confirmed s) = currentLights s
   \<and> phase (resetSystem confirmed s) = phase s
   \<and> phaseDuration (resetSystem confirmed s) = phaseDuration s
   \<and> cycleStartTime (resetSystem confirmed s) = cycleStartTime s
   \<and> startTime (resetSystem confirmed s) = startTime s
   \<and> nextDirectionCount (resetSystem confirmed s) = nextDirectionCount s
   \<and> nextDirectionGreenTime (resetSystem confirmed s) = nextDirectionGreenTime s
   \<and> waitingForSnapshot (resetSystem confirmed s) = waitingForSnapshot s
   \<and> emitted (resetSystem confirmed s) = emitted s"
  by (simp add: resetSystem_def)

text \<open>
  C2, as stated, fails: \<open>resetSystem\<close> does not cancel a pending request and does not
  set the phase back to initializing, and its first timer sends no request while one is
  pending. When the initial request for north is still unanswered, the reset leaves the
  pending flag set and the phase green, and the timer sends nothing.
\<close>

theorem reset_request_counterexample:
  "map_option pending_view (boot all_dom 0 3000) = Some (Green, True, [North])
   \<and> map_option pending_view
        (Option.bind (boot all_dom 0 3000) (run all_dom [ResetSystem True]))
       = Some (Green, True, [North])
   \<and> map_option pending_view
        (Option.bind (boot all_dom 0 3000) (run all_dom [ResetSystem True, ResetRequestTimer]))
       = Some (Green, True, [North])"
  by (simp add: model_defs pending_view_def)

text \<open>
  C2, amended. A confirmed \<open>resetSystem\<close> clears the emergency flags, sets both cycle
  counters to 0 and the rotation index to \<open>-1\<close>, clears \<open>snapshotTaken\<close> and sets
  \<open>isFirstCycle\<close>; it leaves the pending flag and the phase as they are, and a declined
  reset changes nothing. If no request is pending, the first timer of the reset, run on
  the state the reset left, sends exactly one request, for north, and the second timer
  then turns north green for the default first-green duration without a further request.
\<close>

theorem resetSystem_effects:
  "\<not> emergencyMode (resetSystem True s)
   \<and> emergencyDirection (resetSystem True s) = None
   \<and> totalCyclesCompleted (resetSystem True s) = 0
   \<and> cycleCount (resetSystem True s) = 0
   \<and> currentCycleIndex (resetSystem True s) = - 1
   \<and> \<not> snapshotTaken (resetSystem True s)
   \<and> isFirstCycle (resetSystem True s)
   \<and> waitingForSnapshot (resetSystem True s) = waitingForSnapshot s
   \<and> phase (resetSystem True s) = phase s
   \<and> resetSystem False s = s
   \<and> (\<not> waitingForSnapshot s \<longrightarrow>
       (\<exists>s1 s2. resetRequestTimer (resetSystem True s) = Some s1
          \<and> emitted s1 = emitted s @ [North] \<and> waitingForSnapshot s1
          \<and> resetSwitchTimer dm now s1 = Some s2
          \<and> emitted s2 = emitted s1
          \<and> phase s2 = Green \<and> currentCycleIndex s2 = 0
          \<and> getActiveDirections s2 = Some North
          \<and> phaseDuration s2 = DEFAULT_FIRST_GREEN))"
proof -
  let ?r = "resetSystem True s"
  have fields: "\<not> emergencyMode ?r" "emergencyDirection ?r = None"
    "totalCyclesCompleted ?r = 0" "cycleCount ?r = 0" "currentCycleIndex ?r = - 1"
    "\<not> snapshotTaken ?r" "isFirstCycle ?r" "waitingForSnapshot ?r = waitingForSnapshot s"
    "phase ?r = phase s" "resetSystem False s = s" "emitted ?r = emitted s"
    by (simp_all add: resetSystem_def)
  have timers: "\<exists>s1 s2. resetRequestTimer ?r = Some s1
          \<and> emitted s1 = emitted s @ [North] \<and> waitingForSnapshot s1
          \<and> resetSwitchTimer dm now s1 = Some s2
          \<and> emitted s2 = emitted s1
          \<and> phase s2 = Green \<and> currentCycleIndex s2 = 0
          \<and> getActiveDirections s2 = Some North
          \<and> phaseDuration s2 = DEFAULT_FIRST_GREEN"
    if nw: "\<not> waitingForSnapshot s"
  proof -
    let ?s1 = "?r\<lparr>waitingForSnapshot := True, emitted := emitted s @ [North]\<rparr>"
    have ok: "index_ok ?r"
      using fields(5) by (simp add: index_ok_def)
    have r1: "resetRequestTimer ?r = Some ?s1"
      using nw fields getNextDirection_ok[OF ok]
      by (simp add: resetRequestTimer_def requestSnapshotForNextDirection_def CYCLE_ORDER_def)
    have ok1: "index_ok ?s1" "isFirstCycle ?s1" "\<not> emergencyMode ?s1"
      "currentCycleIndex ?s1 = - 1"
      using fields by (simp_all add: index_ok_def)
    obtain s2 where s2: "switchCycle dm now ?s1 = Some s2" "phase s2 = Green"
      "currentCycleIndex s2 = 0" "phaseDuration s2 = DEFAULT_FIRST_GREEN"
      "emitted s2 = emitted ?s1"
      using switchCycle_total[OF ok1(1), of dm now] ok1(2-4) by auto
    have "getActiveDirections s2 = Some North"
      using switchCycle_active[OF ok1(1) s2(1) ok1(3)] s2(3) by (simp add: CYCLE_ORDER_def)
    with r1 s2 show ?thesis
      by (simp add: resetSwitchTimer_def)
  qed
  show ?thesis
    using fields(1-10) timers by blast
qed

text \<open>
  The theorem on the all-red phase after north's first green, once the initial request
  has been answered: the reset's timers send the second request for north and start
  north's green of 15 s.
\<close>

theorem resetSystem_effects_witness:
  "\<not> waitingForSnapshot (snapshot_result North 4 None red_after_north)
   \<and> (\<exists>s1 s2. resetRequestTimer (resetSystem True (snapshot_result North 4 None red_after_north))
                = Some s1
          \<and> emitted s1 = [North, North] \<and> waitingForSnapshot s1
          \<and> resetSwitchTimer all_dom 24000 s1 = Some s2
          \<and> phase s2 = Green \<and> currentCycleIndex s2 = 0
          \<and> getActiveDirections s2 = Some North
          \<and> phaseDuration s2 = 15000)"
proof -
  let ?s = "snapshot_result North 4 None red_after_north"
  have h: "\<not> waitingForSnapshot ?s" and e: "emitted ?s = [North]"
    by (simp_all add: red_after_north_def initial_state_def snapshot_result_def)
  have "\<exists>s1 s2. resetRequestTimer (resetSystem True ?s) = Some s1
          \<and> emitted s1 = emitted ?s @ [North] \<and> waitingForSnapshot s1
          \<and> resetSwitchTimer all_dom 24000 s1 = Some s2
          \<and> emitted s2 = emitted s1
          \<and> phase s2 = Green \<and> currentCycleIndex s2 = 0
          \<and> getActiveDirections s2 = Some North
          \<and> phaseDuration s2 = DEFAULT_FIRST_GREEN"
    using resetSystem_effects [of ?s all_dom 24000] h by blast
  then show ?thesis
    using h e by (auto simp add: DEFAULT_FIRST_GREEN_def)
qed

section \<open>Snapshot results\<close>

text \<open>
  C3, as stated, fails: a result for a request sent before a reset is not discarded. The
  initial request for north is still unanswered when the system is reset; its answer,
  arriving after the reset, overwrites the count of north, the next-direction count and
  green time, and clears the pending flag.
\<close>

theorem stale_result_counterexample:
  "map_option applied
      (Option.bind (boot all_dom 0 3000) (run all_dom [ResetSystem True]))
     = Some (0, 15000, 0, True, [North])
   \<and> map_option applied
      (Option.bind (boot all_dom 0 3000)
         (run all_dom [ResetSystem True, SnapshotResult North 9 None]))
     = Some (9, 32000, 9, False, [North])"
  by (simp add: model_defs applied_def)

text \<open>
  C3, amended. The handler carries no generation tag and looks neither at the pending
  flag nor at the requests sent: its effect is the same for every value of both, and a
  result that arrives after a reset is applied to the reset state like any other.
\<close>

theorem snapshot_result_always_applied:
  "snapshot_result d c g (s\<lparr>waitingForSnapshot := w, emitted := es\<rparr>)
     = (snapshot_result d c g s)\<lparr>emitted := es\<rparr>
   \<and> nextDirectionCount (snapshot_result d c g (resetSystem confirmed s)) = c
   \<and> realCarCounts (snapshot_result d c g (resetSystem confirmed s)) d = c
   \<and> nextDirectionGreenTime (snapshot_result d c g (resetSystem confirmed s))
       = nextDirectionGreenTime (snapshot_result d c g s)
   \<and> nextDirectionGreenTime (snapshot_result d c g (resetSystem confirmed s))
       = (case g of Some v \<Rightarrow> if v \<noteq> 0 then v else calculateSmartTime c
                  | None \<Rightarrow> calculateSmartTime c)
   \<and> \<not> waitingForSnapshot (snapshot_result d c g (resetSystem confirmed s))"
  by (simp add: snapshot_result_def resetSystem_def Let_def)




section \<open>The predictive snapshot request\<close>




section \<open>Phase transitions\<close>

text \<open>
  C5, as stated, fails: \<open>emergencyOverride\<close> sets the phase to yellow whatever it was.
  Called during the all-red phase it makes yellow follow all-red.
\<close>

theorem phase_adjacency_counterexample:
  "map_option phase
      (Option.bind (boot all_dom 0 3000) (run all_dom [Tick 18000 18000, Tick 21000 21000]))
     = Some Red
   \<and> map_option phase
      (Option.bind (boot all_dom 0 3000)
         (run all_dom [Tick 18000 18000, Tick 21000 21000, EmergencyOverride 21500 ''west'']))
     = Some Yellow"
  by (simp add: model_defs)

text \<open>
  C5, amended. From a state whose rotation index is in range, every event is carried out
  and leaves the index in range. A frame of the main loop keeps the phase or moves it one
  step along green, yellow, all-red, green. An emergency override with a valid direction
  sets yellow from any phase, one with an invalid direction keeps the phase. The switch
  timer of a reset sets green from any phase. Traffic updates, snapshot results,
  \<open>resetSystem\<close> itself and its request timer keep the phase.
\<close>

theorem phase_adjacency:
  assumes "index_ok s"
  shows "\<exists>s'. step dm e s = Some s' \<and> index_ok s'
     \<and> (case e of
           Tick now now_sw \<Rightarrow>
             phase s' = phase s
             \<or> (phase s, phase s') \<in> {(Green, Yellow), (Yellow, Red), (Red, Green)}
         | EmergencyOverride now x \<Rightarrow>
             phase s' = (if parse_direction x = None then phase s else Yellow)
         | ResetSwitchTimer now \<Rightarrow> phase s' = Green
         | _ \<Rightarrow> phase s' = phase s)"
proof (cases e)
  case (Tick now now_sw)
  then show ?thesis
    using mainLoop_effect[OF assms, of dm now now_sw]
    by (auto split: if_splits)
next
  case (TrafficUpdate n so ea w)
  then show ?thesis using assms by (simp add: traffic_update_def index_ok_def)
next
  case (SnapshotResult d c g)
  then show ?thesis using assms by (simp add: snapshot_result_def index_ok_def Let_def)
next
  case (EmergencyOverride now x)
  then show ?thesis using assms
    by (auto simp add: emergencyOverride_def index_ok_def split: option.splits)
next
  case (ResetSystem c)
  then show ?thesis using assms by (simp add: resetSystem_def index_ok_def)
next
  case ResetRequestTimer
  then show ?thesis using assms getNextDirection_ok[OF assms]
    by (simp add: resetRequestTimer_def requestSnapshotForNextDirection_def index_ok_def)
next
  case (ResetSwitchTimer now)
  then show ?thesis using switchCycle_total[OF assms, of dm now]
    by (auto simp: resetSwitchTimer_def)
qed

text \<open>
  The theorem on the all-red phase after north's first green: an emergency override for
  west makes it yellow, a frame at its end makes it green.
\<close>

theorem phase_adjacency_witness:
  "index_ok red_after_north \<and> phase red_after_north = Red
   \<and> (\<exists>s'. step all_dom (EmergencyOverride 21500 ''west'') red_after_north = Some s'
           \<and> phase s' = Yellow)
   \<and> (\<exists>s'. step all_dom (Tick 23000 23000) red_after_north = Some s'
           \<and> (phase s' = Red \<or> phase s' = Green))"
proof -
  have h: "index_ok red_after_north" "phase red_after_north = Red"
    by (simp_all add: red_after_north_def initial_state_def index_ok_def)
  have a: "\<exists>s'. step all_dom (EmergencyOverride 21500 ''west'') red_after_north = Some s'
           \<and> phase s' = Yellow"
    using phase_adjacency[OF h(1), of all_dom "EmergencyOverride 21500 ''west''"]
    by (auto simp: parse_direction_def)
  have b: "\<exists>s'. step all_dom (Tick 23000 23000) red_after_north = Some s'
           \<and> (phase s' = Red \<or> phase s' = Green)"
    using phase_adjacency[OF h(1), of all_dom "Tick 23000 23000"] h(2)
    by auto
  show ?thesis using h a b by simp
qed

section \<open>Rotation and the cycle counter\<close>

text \<open>
  C9, as stated, fails in two ways. The counter is not the number of full traversals:
  the first activation moves the index from \<open>-1\<close> to 0 and is counted, so the counter
  is 1 during north's first green and 2 when north turns green again after one
  traversal. And a green is not always the rotation's: after a reset, an emergency
  override that comes before the reset's switch timer makes that timer turn south green
  while the index is at north's position.
\<close>

theorem rotation_counter_counterexample:
  "map_option cycle_view (boot all_dom 0 3000) = Some (Green, Some North, 0, 1)
   \<and> map_option cycle_view (run all_dom full_round red_after_north)
       = Some (Green, Some North, 0, 2)
   \<and> cycle_view red_after_north = (Red, Some North, 0, 1)
   \<and> map_option cycle_view (run all_dom override_after_reset red_after_north)
       = Some (Green, Some South, 0, 1)"
  by (simp add: model_defs cycle_view_def full_round_def override_after_reset_def
        red_after_north_def)

text \<open>
  C9, amended. The rotation is north, east, south, west. From a state whose index is a
  position of the rotation, a frame of the main loop that ends an all-red phase moves
  the index to the next position modulo 4, turns the approach at that position green,
  and increments \<open>totalCyclesCompleted\<close> exactly when the new position is 0; every other
  frame leaves index and counter alone, and so does \<open>emergencyOverride\<close>. Along any run
  without a confirmed reset, \<open>n\<close> advances from position \<open>i\<close> lead to position
  \<open>(i + n) mod 4\<close> and add \<open>(i + n) div 4\<close> to the counter: one for each return to
  position 0, that is one per full traversal.
\<close>

theorem rotation_and_cycle_counter:
  assumes "rotating s" and "ResetSystem True \<notin> set es"
  shows "CYCLE_ORDER = [North, East, South, West]
     \<and> (\<exists>s'. mainLoop dm now now_sw s = Some s'
          \<and> (if phase s = Red \<and> phaseDuration s \<le> now - cycleStartTime s
              then phase s' = Green
                   \<and> currentCycleIndex s' = (currentCycleIndex s + 1) mod 4
                   \<and> getActiveDirections s' = Some (CYCLE_ORDER ! nat (currentCycleIndex s'))
                   \<and> totalCyclesCompleted s'
                       = totalCyclesCompleted s + (if currentCycleIndex s' = 0 then 1 else 0)
              else currentCycleIndex s' = currentCycleIndex s
                   \<and> totalCyclesCompleted s' = totalCyclesCompleted s))
     \<and> currentCycleIndex (emergencyOverride dm now x s) = currentCycleIndex s
     \<and> totalCyclesCompleted (emergencyOverride dm now x s) = totalCyclesCompleted s
     \<and> (\<exists>s'. run dm es s = Some s'
          \<and> currentCycleIndex s' = (currentCycleIndex s + int (advances dm es s)) mod 4
          \<and> totalCyclesCompleted s'
              = totalCyclesCompleted s
                + (currentCycleIndex s + int (advances dm es s)) div 4)"
proof -
  have ok: "index_ok s"
    using assms(1) by (simp add: rotating_def index_ok_def)
  have a: "CYCLE_ORDER = [North, East, South, West]"
    by (simp add: CYCLE_ORDER_def)
  have b: "\<exists>s'. mainLoop dm now now_sw s = Some s'
          \<and> (if phase s = Red \<and> phaseDuration s \<le> now - cycleStartTime s
              then phase s' = Green
                   \<and> currentCycleIndex s' = (currentCycleIndex s + 1) mod 4
                   \<and> getActiveDirections s' = Some (CYCLE_ORDER ! nat (currentCycleIndex s'))
                   \<and> totalCyclesCompleted s'
                       = totalCyclesCompleted s + (if currentCycleIndex s' = 0 then 1 else 0)
              else currentCycleIndex s' = currentCycleIndex s
                   \<and> totalCyclesCompleted s' = totalCyclesCompleted s)"
  proof -
    obtain s' where s': "mainLoop dm now now_sw s = Some s'"
      and eff: "if phase s = Red \<and> phaseDuration s \<le> now - cycleStartTime s
         then phase s' = Green
              \<and> currentCycleIndex s' = (currentCycleIndex s + 1) mod 4
              \<and> totalCyclesCompleted s'
                  = totalCyclesCompleted s + (if currentCycleIndex s' = 0 then 1 else 0)
              \<and> \<not> emergencyMode s'
              \<and> getActiveDirections s' = Some (CYCLE_ORDER ! nat (currentCycleIndex s'))
         else currentCycleIndex s' = currentCycleIndex s
              \<and> totalCyclesCompleted s' = totalCyclesCompleted s
              \<and> emergencyMode s' = emergencyMode s
              \<and> (phase s' = phase s \<or> phase s = Green \<and> phase s' = Yellow
                  \<or> phase s = Yellow \<and> phase s' = Red)"
      using mainLoop_effect[OF ok, of dm now now_sw] by blast
    show ?thesis
    proof (cases "phase s = Red \<and> phaseDuration s \<le> now - cycleStartTime s")
      case True
      then show ?thesis using s' eff by simp
    next
      case False
      then show ?thesis using s' eff by simp
    qed
  qed
  have c: "currentCycleIndex (emergencyOverride dm now x s) = currentCycleIndex s"
    "totalCyclesCompleted (emergencyOverride dm now x s) = totalCyclesCompleted s"
    by (simp_all add: emergencyOverride_def split: option.splits)
  have d: "\<exists>s'. run dm es s = Some s'
          \<and> currentCycleIndex s' = (currentCycleIndex s + int (advances dm es s)) mod 4
          \<and> totalCyclesCompleted s'
              = totalCyclesCompleted s
                + (currentCycleIndex s + int (advances dm es s)) div 4"
    using run_rotation[OF assms, of dm] by blast
  show ?thesis
    by (intro conjI) (rule a b c d)+
qed

text \<open>
  The theorem on the all-red phase after north's first green: the frame at its end turns
  east green without counting a cycle, and the run through east (cut short by an
  emergency), south, west and north advances four times, is back at position 0 and has
  counted one cycle.
\<close>

theorem rotation_and_cycle_counter_witness:
  "rotating red_after_north \<and> ResetSystem True \<notin> set full_round
   \<and> advances all_dom full_round red_after_north = 4
   \<and> (\<exists>s'. mainLoop all_dom 23000 23000 red_after_north = Some s'
          \<and> phase s' = Green \<and> currentCycleIndex s' = 1
          \<and> getActiveDirections s' = Some East
          \<and> totalCyclesCompleted s' = totalCyclesCompleted red_after_north)
   \<and> (\<exists>s'. run all_dom full_round red_after_north = Some s'
          \<and> currentCycleIndex s' = 0
          \<and> totalCyclesCompleted s' = totalCyclesCompleted red_after_north + 1)"
proof -
  have h: "rotating red_after_north" "ResetSystem True \<notin> set full_round"
    by (simp_all add: red_after_north_def initial_state_def rotating_def full_round_def)
  have f: "phase red_after_north = Red"
    "phaseDuration red_after_north \<le> 23000 - cycleStartTime red_after_north"
    "currentCycleIndex red_after_north = 0"
    by (simp_all add: red_after_north_def initial_state_def)
  have adv: "advances all_dom full_round red_after_north = 4"
    by (simp add: model_defs red_after_north_def full_round_def)
  note t = rotation_and_cycle_counter[OF h, where dm = all_dom and now = 23000
      and now_sw = 23000 and x = "''north''"]
  from t obtain s1 where s1: "mainLoop all_dom 23000 23000 red_after_north = Some s1"
    "if phase red_after_north = Red
        \<and> phaseDuration red_after_north \<le> 23000 - cycleStartTime red_after_north
     then phase s1 = Green
          \<and> currentCycleIndex s1 = (currentCycleIndex red_after_north + 1) mod 4
          \<and> getActiveDirections s1 = Some (CYCLE_ORDER ! nat (currentCycleIndex s1))
          \<and> totalCyclesCompleted s1
              = totalCyclesCompleted red_after_north
                + (if currentCycleIndex s1 = 0 then 1 else 0)
     else currentCycleIndex s1 = currentCycleIndex red_after_north
          \<and> totalCyclesCompleted s1 = totalCyclesCompleted red_after_north"
    by blast
  from t obtain s2 where s2: "run all_dom full_round red_after_north = Some s2"
    "currentCycleIndex s2
       = (currentCycleIndex red_after_north
            + int (advances all_dom full_round red_after_north)) mod 4"
    "totalCyclesCompleted s2
       = totalCyclesCompleted red_after_north
         + (currentCycleIndex red_after_north
              + int (advances all_dom full_round red_after_north)) div 4"
    by blast
  have a: "phase s1 = Green \<and> currentCycleIndex s1 = 1
          \<and> getActiveDirections s1 = Some East
          \<and> totalCyclesCompleted s1 = totalCyclesCompleted red_after_north"
    using s1(2) f by (simp add: CYCLE_ORDER_def)
  have b: "currentCycleIndex s2 = 0
          \<and> totalCyclesCompleted s2 = totalCyclesCompleted red_after_north + 1"
    using s2(2,3) by (simp add: f(3) adv)
  show ?thesis using h adv s1(1) a s2(1) b by simp
qed

section \<open>The request discipline\<close>

text \<open>
  C8, as stated, fails in two ways. A request for one direction can be issued twice in
  one green phase: a reset during north's green sets the index to \<open>-1\<close> and clears
  \<open>snapshotTaken\<close>, the next frame requests a snapshot for north, and after its answer
  the request timer of the reset requests one for north again, all in the same green.
  And two requests can be pending at once: the first timer of the initialization sends
  the initial request without looking at the pending flag, so after a reset whose
  request timer fired before it, two requests for north are unanswered.
\<close>

theorem request_discipline_counterexample:
  "map_option pending_view
      (Option.bind (boot all_dom 0 3000) (run all_dom [SnapshotResult North 4 None]))
     = Some (Green, False, [North])
   \<and> map_option pending_view
      (Option.bind (boot all_dom 0 3000)
         (run all_dom (SnapshotResult North 4 None # reset_in_green)))
     = Some (Green, True, [North, North, North])
   \<and> green_throughout all_dom reset_in_green north_green
   \<and> filter is_result early_reset = []
   \<and> map_option (\<lambda>s. pending_view (initRequestTimer s))
        (run all_dom early_reset (initial_state 0))
     = Some (Initializing, True, [North, North])"
  by (simp add: model_defs pending_view_def reset_in_green_def north_green_def
        early_reset_def)

text \<open>
  C8, amended. The page starts with no request sent. If no request is unanswered when
  the first timer of the initialization sends the initial one, then at most one request
  is unanswered afterwards, and none while the pending flag is clear: the second timer
  of the initialization keeps it so, and so does every run of events in which each
  snapshot result answers a request. Calling \<open>requestSnapshotForNextDirection\<close> while the
  pending flag is set sends nothing and changes nothing. Within one green phase in which
  no reset and no timer of a reset occurs, at most one request is sent.
\<close>

theorem request_discipline:
  "index_ok (initial_state t0) \<and> pending_ok (initial_state t0) 0
   \<and> (index_ok s \<and> pending_ok s k \<and> length (emitted s) = k \<longrightarrow>
        index_ok (initRequestTimer s) \<and> pending_ok (initRequestTimer s) k)
   \<and> (index_ok s \<and> pending_ok s k \<longrightarrow>
        (\<exists>s'. initStartTimer dm t1 s = Some s' \<and> index_ok s' \<and> pending_ok s' k))
   \<and> (\<exists>s0. boot dm t0 t1 = Some s0 \<and> index_ok s0 \<and> pending_ok s0 0)
   \<and> (index_ok s \<and> pending_ok s k \<and> channel_ok dm es s k \<longrightarrow>
        (\<exists>s'. run dm es s = Some s' \<and> index_ok s'
           \<and> pending_ok s' (k + length (filter is_result es))
           \<and> length (emitted s') - (k + length (filter is_result es)) \<le> 1))
   \<and> (waitingForSnapshot s \<longrightarrow> requestSnapshotForNextDirection s = Some s)
   \<and> (index_ok s \<and> (\<forall>e \<in> set es. \<not> is_reset e) \<and> green_throughout dm es s \<longrightarrow>
        (\<exists>s'. run dm es s = Some s'
           \<and> length (emitted s') \<le> Suc (length (emitted s))))"
proof -
  have i0: "index_ok (initial_state t0)" "pending_ok (initial_state t0) 0"
    by (simp_all add: initial_state_def index_ok_def pending_ok_def)
  have i1: "index_ok s \<and> pending_ok s k \<and> length (emitted s) = k \<longrightarrow>
        index_ok (initRequestTimer s) \<and> pending_ok (initRequestTimer s) k"
    using initRequestTimer_pending[of s k] by blast
  have i2: "index_ok s \<and> pending_ok s k \<longrightarrow>
        (\<exists>s'. initStartTimer dm t1 s = Some s' \<and> index_ok s' \<and> pending_ok s' k)"
    using initStartTimer_pending[of s k dm t1] by blast
  have a: "index_ok s \<and> pending_ok s k \<and> channel_ok dm es s k \<longrightarrow>
        (\<exists>s'. run dm es s = Some s' \<and> index_ok s'
           \<and> pending_ok s' (k + length (filter is_result es))
           \<and> length (emitted s') - (k + length (filter is_result es)) \<le> 1)"
  proof
    assume h: "index_ok s \<and> pending_ok s k \<and> channel_ok dm es s k"
    then obtain s' where s': "run dm es s = Some s'" "index_ok s'"
      "pending_ok s' (k + length (filter is_result es))"
      using run_pending_ok[of s k dm es] by blast
    have "length (emitted s') - (k + length (filter is_result es)) \<le> 1"
      using s'(3) by (simp add: pending_ok_def split: if_splits)
    with s' show "\<exists>s'. run dm es s = Some s' \<and> index_ok s'
           \<and> pending_ok s' (k + length (filter is_result es))
           \<and> length (emitted s') - (k + length (filter is_result es)) \<le> 1"
      by blast
  qed
  have b: "waitingForSnapshot s \<longrightarrow> requestSnapshotForNextDirection s = Some s"
    by (simp add: requestSnapshotForNextDirection_def)
  have c: "index_ok s \<and> (\<forall>e \<in> set es. \<not> is_reset e) \<and> green_throughout dm es s \<longrightarrow>
        (\<exists>s'. run dm es s = Some s'
           \<and> length (emitted s') \<le> Suc (length (emitted s)))"
    using run_green[of s es dm] by blast
  show ?thesis
    by (intro conjI) (rule i0 i1 i2 boot_pending_ok a b c)+
qed

text \<open>
  The theorem on the start of the page, where the initial request is the only one; on
  north's first green (initial request answered), where the run with the reset keeps at
  most one request unanswered and the run without it sends one request; and on the
  all-red phase after it, where the initial request is still pending and a call of the
  request operation is a no-op.
\<close>

theorem request_discipline_witness:
  "index_ok (initial_state 0) \<and> pending_ok (initial_state 0) 0
   \<and> length (emitted (initial_state 0)) = 0
   \<and> pending_ok (initRequestTimer (initial_state 0)) 0
   \<and> (\<exists>s'. initStartTimer all_dom 3000 (initRequestTimer (initial_state 0)) = Some s'
          \<and> pending_ok s' 0)
   \<and> index_ok north_green \<and> pending_ok north_green 1
   \<and> channel_ok all_dom reset_in_green north_green 1
   \<and> (\<exists>s'. run all_dom reset_in_green north_green = Some s'
          \<and> length (emitted s') - 2 \<le> 1)
   \<and> waitingForSnapshot red_after_north
   \<and> requestSnapshotForNextDirection red_after_north = Some red_after_north
   \<and> filter is_reset quiet_green = []
   \<and> green_throughout all_dom quiet_green north_green
   \<and> (\<exists>s'. run all_dom quiet_green north_green = Some s'
          \<and> length (emitted s') \<le> 2)"
proof -
  let ?i = "initial_state 0"
  have i: "index_ok ?i" "pending_ok ?i 0" "length (emitted ?i) = 0"
    by (simp_all add: initial_state_def index_ok_def pending_ok_def)
  have j: "index_ok (initRequestTimer ?i) \<and> pending_ok (initRequestTimer ?i) 0"
    using request_discipline[of 0 ?i 0 all_dom 3000 "[]"] i by blast
  have j2: "\<exists>s'. initStartTimer all_dom 3000 (initRequestTimer ?i) = Some s'
          \<and> pending_ok s' 0"
    using request_discipline[of 0 "initRequestTimer ?i" 0 all_dom 3000 "[]"] j by blast
  have h: "index_ok north_green" "pending_ok north_green 1"
    "length (emitted north_green) = 1"
    by (simp_all add: north_green_def initial_state_def index_ok_def pending_ok_def)
  have ch: "channel_ok all_dom reset_in_green north_green 1"
    by (simp add: model_defs reset_in_green_def north_green_def)
  have n1: "length (filter is_result reset_in_green) = 1"
    by (simp add: reset_in_green_def)
  have a: "\<exists>s'. run all_dom reset_in_green north_green = Some s'
          \<and> length (emitted s') - 2 \<le> 1"
    using request_discipline[of 0 north_green 1 all_dom 3000 reset_in_green] h(1,2) ch n1
    by auto
  have w: "waitingForSnapshot red_after_north"
    by (simp add: red_after_north_def initial_state_def)
  have b: "requestSnapshotForNextDirection red_after_north = Some red_after_north"
    using request_discipline[of 0 red_after_north 0 all_dom 3000 "[]"] w by blast
  have q: "\<forall>e \<in> set quiet_green. \<not> is_reset e"
    by (simp add: quiet_green_def)
  have q': "filter is_reset quiet_green = []"
    by (simp add: quiet_green_def)
  have g: "green_throughout all_dom quiet_green north_green"
    by (simp add: model_defs quiet_green_def north_green_def)
  have c: "\<exists>s'. run all_dom quiet_green north_green = Some s'
          \<and> length (emitted s') \<le> 2"
    using request_discipline[of 0 north_green 0 all_dom 3000 quiet_green] h(1,3) q g
    by auto
  show ?thesis
    using i j j2 h(1,2) ch a w b q' g c by blast
qed

end
